theory Spec2Isabelle
  imports Main "HOL-Library.Word"
begin

section \<open>Student records (class Student of stu_info.cpp)\<close>

text \<open>
  The member \<open>rollNo\<close> is a C++ \<open>int\<close>, taken here as a 32-bit two's complement word;
  the four text members are byte strings.
\<close>

record Student =
  rollNo :: "32 word"
  name :: string
  department :: string
  email :: string
  phone :: string

text \<open>
  The two constructors. \<open>Student() {}\<close> has an empty body and no member initialisers:
  the four strings are default-constructed (empty) and \<open>rollNo\<close> is left uninitialised.
  Its indeterminate value is the parameter \<open>indet\<close> of the model.
\<close>

definition Student_default :: "32 word \<Rightarrow> Student" where
  "Student_default indet =
     \<lparr>rollNo = indet, name = [], department = [], email = [], phone = []\<rparr>"

definition Student_make :: "32 word \<Rightarrow> string \<Rightarrow> string \<Rightarrow> string \<Rightarrow> string \<Rightarrow> Student" where
  "Student_make r n d e p = \<lparr>rollNo = r, name = n, department = d, email = e, phone = p\<rparr>"

definition setName :: "string \<Rightarrow> Student \<Rightarrow> Student" where
  "setName n s = s\<lparr>name := n\<rparr>"

subsection \<open>Formatted output of an int\<close>

text \<open>\<open>out << rollNo\<close> prints the signed decimal numeral: a minus sign for a negative
  value, then the digits without leading zeros.\<close>

definition digit_char :: "nat \<Rightarrow> char" where
  "digit_char d = char_of (48 + d)"

fun show_nat :: "nat \<Rightarrow> string" where
  "show_nat n = (if n < 10 then [digit_char n]
                 else show_nat (n div 10) @ [digit_char (n mod 10)])"

declare show_nat.simps [simp del]

definition show_int :: "int \<Rightarrow> string" where
  "show_int i = (if i < 0 then CHR ''-'' # show_nat (nat (- i)) else show_nat (nat i))"

definition comma :: char where
  "comma = CHR '',''"

definition newline :: char where
  "newline = CHR 0x0A"

text \<open>\<open>Student::saveToFile\<close> without the final \<open>endl\<close>, and with it.\<close>

definition Student_line :: "Student \<Rightarrow> string" where
  "Student_line s =
     show_int (sint (rollNo s)) @ [comma] @ name s @ [comma] @ department s @ [comma]
       @ email s @ [comma] @ phone s"

definition Student_saveToFile :: "Student \<Rightarrow> string" where
  "Student_saveToFile s = Student_line s @ [newline]"

subsection \<open>std::stoi\<close>

text \<open>
  \<open>std::stoi(str)\<close> with base 10, as the C++ standard defines it through \<open>strtol\<close>:
  leading white space is skipped, an optional sign is read, then the longest run of
  decimal digits; what follows the digits is ignored. Without any digit it throws
  \<open>std::invalid_argument\<close>; when the value does not fit an \<open>int\<close> it throws
  \<open>std::out_of_range\<close>. Nothing in the program catches either exception.
\<close>

datatype error = Invalid_argument | Out_of_range

definition isspace :: "char \<Rightarrow> bool" where
  "isspace c = (c \<in> set [CHR '' '', CHR 0x09, CHR 0x0A, CHR 0x0B, CHR 0x0C, CHR 0x0D])"

definition isdigit :: "char \<Rightarrow> bool" where
  "isdigit c = (48 \<le> (of_char c :: nat) \<and> (of_char c :: nat) \<le> 57)"

definition digit_val :: "char \<Rightarrow> int" where
  "digit_val c = int (of_char c) - 48"

definition digits_value :: "string \<Rightarrow> int" where
  "digits_value ds = foldl (\<lambda>a c. 10 * a + digit_val c) 0 ds"

definition stoi :: "string \<Rightarrow> error + 32 word" where
  "stoi str =
     (let s1 = dropWhile isspace str;
          neg = (s1 \<noteq> [] \<and> hd s1 = CHR ''-'');
          s2 = (if s1 \<noteq> [] \<and> (hd s1 = CHR ''-'' \<or> hd s1 = CHR ''+'') then tl s1 else s1);
          ds = takeWhile isdigit s2;
          v = (if neg then - digits_value ds else digits_value ds)
      in if ds = [] then Inl Invalid_argument
         else if v < - (2 ^ 31) \<or> 2 ^ 31 - 1 < v then Inl Out_of_range
         else Inr (word_of_int v))"

subsection \<open>Student::fromString\<close>

text \<open>\<open>line.find(",")\<close>: the position of the first comma, \<open>npos\<close> as \<open>None\<close>.\<close>

primrec find_char :: "char \<Rightarrow> string \<Rightarrow> nat option" where
  "find_char c [] = None"
| "find_char c (x # xs) =
     (if x = c then Some 0 else map_option Suc (find_char c xs))"

text \<open>The splitting loop together with the final \<open>parts.push_back(line)\<close>.\<close>

function split_parts :: "string \<Rightarrow> string list" where
  "split_parts line =
     (case find_char comma line of
        None \<Rightarrow> [line]
      | Some pos \<Rightarrow> take pos line # split_parts (drop (pos + 1) line))"
  by pat_completeness auto
termination
proof (relation "measure length")
  show "wf (measure length)" by simp
next
  fix line :: string and pos :: nat
  have less: "find_char c s = Some p \<Longrightarrow> p < length s" for c s p
    by (induction s arbitrary: p) (auto split: if_splits)
  assume "find_char comma line = Some pos"
  then have "pos < length line" by (rule less)
  then show "(drop (pos + 1) line, line) \<in> measure length" by simp
qed

declare split_parts.simps [simp del]

definition fromString :: "32 word \<Rightarrow> string \<Rightarrow> error + Student" where
  "fromString indet line =
     (let parts = split_parts line
      in if length parts = 5 then
           (case stoi (parts ! 0) of
              Inl ex \<Rightarrow> Inl ex
            | Inr r \<Rightarrow> Inr (Student_make r (parts ! 1) (parts ! 2) (parts ! 3) (parts ! 4)))
         else Inr (Student_default indet))"

section \<open>The store (class StudentSystem)\<close>

text \<open>
  The state is the vector \<open>students\<close> and the content of the backing file
  \<open>students.txt\<close> (\<open>None\<close> while the file does not exist). The file system is taken
  as reliable: opening the file for writing and writing to it succeed.
\<close>

record StudentSystem =
  students :: "Student list"
  students_txt :: "string option"

text \<open>What an operation prints, one constructor per message; \<open>Display\<close> stands for
  the block that \<open>Student::display\<close> prints for a record.\<close>

datatype message = Display Student | No_records | Not_found | Added | Updated | Deleted

text \<open>
  The lines that successive \<open>getline(in, line)\<close> calls deliver: the text up to the next
  line feed, which is consumed; a last line without a line feed is delivered too, and
  at the end of the input the call fails and the loop stops.
\<close>

function getlines :: "string \<Rightarrow> string list" where
  "getlines s =
     (if s = [] then []
      else case find_char newline s of
             None \<Rightarrow> [s]
           | Some pos \<Rightarrow> take pos s # getlines (drop (pos + 1) s))"
  by pat_completeness auto
termination
proof (relation "measure length")
  show "wf (measure length)" by simp
next
  fix s :: string and pos :: nat
  have less: "find_char c t = Some p \<Longrightarrow> p < length t" for c t p
    by (induction t arbitrary: p) (auto split: if_splits)
  assume "s \<noteq> []" and "find_char newline s = Some pos"
  then have "pos < length s" by (simp add: less)
  then show "(drop (pos + 1) s, s) \<in> measure length" by simp
qed

declare getlines.simps [simp del]

text \<open>
  The loop of \<open>loadFromFile\<close> over the lines still to be read, \<open>acc\<close> being the vector
  built so far. Each call of \<open>fromString\<close> may find another indeterminate value in an
  uninitialised \<open>rollNo\<close>: \<open>indet k\<close> is the one met while the vector holds \<open>k\<close> records.
  An exception of \<open>std::stoi\<close> leaves the loop and, uncaught, ends the program; what is
  left then is the exception and the backing file, which \<open>loadFromFile\<close> only reads.
\<close>

primrec load_loop :: "(nat \<Rightarrow> 32 word) \<Rightarrow> string list \<Rightarrow> Student list \<Rightarrow> error + Student list" where
  "load_loop indet [] acc = Inr acc"
| "load_loop indet (line # rest) acc =
     (if line \<noteq> [] then
        (case fromString (indet (length acc)) line of
           Inl ex \<Rightarrow> Inl ex
         | Inr s \<Rightarrow> load_loop indet rest (acc @ [s]))
      else load_loop indet rest acc)"

definition loadFromFile ::
  "(nat \<Rightarrow> 32 word) \<Rightarrow> StudentSystem \<Rightarrow> (error \<times> string option) + StudentSystem" where
  "loadFromFile indet st =
     (case load_loop indet (case students_txt st of None \<Rightarrow> [] | Some content \<Rightarrow> getlines content) [] of
        Inl ex \<Rightarrow> Inl (ex, students_txt st)
      | Inr xs \<Rightarrow> Inr (st\<lparr>students := xs\<rparr>))"

definition saveToFile :: "StudentSystem \<Rightarrow> StudentSystem" where
  "saveToFile st = st\<lparr>students_txt := Some (concat (map Student_saveToFile (students st)))\<rparr>"

text \<open>The constructor of the store, started on a given file system.\<close>

definition StudentSystem_new ::
  "(nat \<Rightarrow> 32 word) \<Rightarrow> string option \<Rightarrow> (error \<times> string option) + StudentSystem" where
  "StudentSystem_new indet content = loadFromFile indet \<lparr>students = [], students_txt = content\<rparr>"

text \<open>The backing file after the start of the program, whether the load returned
  or threw.\<close>

definition file_after :: "(error \<times> string option) + StudentSystem \<Rightarrow> string option" where
  "file_after res = (case res of Inl (ex, content) \<Rightarrow> content | Inr st \<Rightarrow> students_txt st)"

text \<open>The operations take the values that the prompts have read from standard input
  and return the new state with the messages printed.\<close>

definition addStudent ::
  "StudentSystem \<Rightarrow> 32 word \<Rightarrow> string \<Rightarrow> string \<Rightarrow> string \<Rightarrow> string \<Rightarrow> StudentSystem \<times> message list" where
  "addStudent st roll nm dept em ph =
     (saveToFile (st\<lparr>students := students st @ [Student_make roll nm dept em ph]\<rparr>), [Added])"

definition viewStudents :: "StudentSystem \<Rightarrow> StudentSystem \<times> message list" where
  "viewStudents st =
     (if students st = [] then (st, [No_records]) else (st, map Display (students st)))"

primrec search_loop :: "32 word \<Rightarrow> Student list \<Rightarrow> Student option" where
  "search_loop roll [] = None"
| "search_loop roll (s # rest) = (if rollNo s = roll then Some s else search_loop roll rest)"

definition searchStudent :: "StudentSystem \<Rightarrow> 32 word \<Rightarrow> StudentSystem \<times> message list" where
  "searchStudent st roll =
     (case search_loop roll (students st) of
        Some s \<Rightarrow> (st, [Display s])
      | None \<Rightarrow> (st, [Not_found]))"

text \<open>The loop of \<open>updateStudent\<close>: the vector after \<open>setName\<close> on the first match, or
  \<open>None\<close> when the loop ends with \<open>found\<close> still false.\<close>

primrec update_loop :: "32 word \<Rightarrow> string \<Rightarrow> Student list \<Rightarrow> Student list option" where
  "update_loop roll newName [] = None"
| "update_loop roll newName (s # rest) =
     (if rollNo s = roll then Some (setName newName s # rest)
      else map_option ((#) s) (update_loop roll newName rest))"

definition updateStudent :: "StudentSystem \<Rightarrow> 32 word \<Rightarrow> string \<Rightarrow> StudentSystem \<times> message list" where
  "updateStudent st roll newName =
     (case update_loop roll newName (students st) of
        Some xs \<Rightarrow> (saveToFile (st\<lparr>students := xs\<rparr>), [Updated])
      | None \<Rightarrow> (st, [Not_found]))"

text \<open>The iterator loop of \<open>deleteStudent\<close>, the iterator as an index; \<open>erase\<close> at
  position \<open>i\<close> keeps the elements before and after it.\<close>

definition erase :: "'a list \<Rightarrow> nat \<Rightarrow> 'a list" where
  "erase xs i = take i xs @ drop (Suc i) xs"

function delete_loop :: "32 word \<Rightarrow> Student list \<Rightarrow> nat \<Rightarrow> Student list option" where
  "delete_loop roll xs i =
     (if i < length xs then
        (if rollNo (xs ! i) = roll then Some (erase xs i) else delete_loop roll xs (Suc i))
      else None)"
  by pat_completeness auto
termination
  by (relation "measure (\<lambda>(roll, xs, i). length xs - i)") auto

declare delete_loop.simps [simp del]

definition deleteStudent :: "StudentSystem \<Rightarrow> 32 word \<Rightarrow> StudentSystem \<times> message list" where
  "deleteStudent st roll =
     (case delete_loop roll (students st) 0 of
        Some xs \<Rightarrow> (saveToFile (st\<lparr>students := xs\<rparr>), [Deleted])
      | None \<Rightarrow> (st, [Not_found]))"

section \<open>Properties\<close>

text \<open>The store invariant: the backing file holds the serialisation of the vector,
  one line per record, in the order of the vector.\<close>

definition consistent :: "StudentSystem \<Rightarrow> bool" where
  "consistent st = (students_txt st = Some (concat (map Student_saveToFile (students st))))"

text \<open>\<open>first_match roll xs i\<close>: position \<open>i\<close> holds the first record of \<open>xs\<close> whose roll
  number is \<open>roll\<close>.\<close>

definition first_match :: "32 word \<Rightarrow> Student list \<Rightarrow> nat \<Rightarrow> bool" where
  "first_match roll xs i =
     (i < length xs \<and> rollNo (xs ! i) = roll \<and> (\<forall>j \<in> {..<i}. rollNo (xs ! j) \<noteq> roll))"

text \<open>The text members of a record hold no comma, and no line feed.\<close>

definition no_comma_fields :: "Student \<Rightarrow> bool" where
  "no_comma_fields s =
     (comma \<notin> set (name s) \<and> comma \<notin> set (department s) \<and> comma \<notin> set (email s)
      \<and> comma \<notin> set (phone s))"

definition no_newline_fields :: "Student \<Rightarrow> bool" where
  "no_newline_fields s =
     (newline \<notin> set (name s) \<and> newline \<notin> set (department s) \<and> newline \<notin> set (email s)
      \<and> newline \<notin> set (phone s))"


text \<open>The records and the store of the scenario used at concrete inputs.\<close>

definition alice :: Student where
  "alice = \<lparr>rollNo = 1, name = ''Alice'', department = ''CS'', email = ''a@x.com'',
     phone = ''555''\<rparr>"

definition bob :: Student where
  "bob = \<lparr>rollNo = 2, name = ''Bob'', department = ''EE'', email = ''b@x.com'',
     phone = ''556''\<rparr>"

definition alma :: Student where
  "alma = \<lparr>rollNo = 1, name = ''Alma'', department = ''ME'', email = ''m@x.com'',
     phone = ''557''\<rparr>"

definition store3 :: StudentSystem where
  "store3 = \<lparr>students = [alice, bob, alma], students_txt = None\<rparr>"

definition store2 :: StudentSystem where
  "store2 = \<lparr>students = [alice, bob], students_txt = None\<rparr>"

subsection \<open>The loops over the vector\<close>

lemma consistent_saveToFile: "consistent (saveToFile st)"
  by (simp add: consistent_def saveToFile_def)

lemma first_match_Cons:
  "first_match roll (s # rest) i =
     (if rollNo s = roll then i = 0 else (\<exists>k. i = Suc k \<and> first_match roll rest k))"
proof (cases i)
  case 0
  then show ?thesis by (auto simp: first_match_def)
next
  case (Suc k)
  have "(\<forall>j\<in>{..<Suc k}. rollNo ((s # rest) ! j) \<noteq> roll) =
        (rollNo s \<noteq> roll \<and> (\<forall>j\<in>{..<k}. rollNo (rest ! j) \<noteq> roll))"
    by (auto simp: lessThan_Suc_eq_insert_0)
  with Suc show ?thesis by (auto simp: first_match_def)
qed

lemma first_match_in_set: "first_match roll xs i \<Longrightarrow> \<exists>s \<in> set xs. rollNo s = roll"
  by (auto simp: first_match_def)

lemma first_match_Nil [simp]: "\<not> first_match roll [] i"
  by (simp add: first_match_def)

lemma search_loop_first: "first_match roll xs i \<Longrightarrow> search_loop roll xs = Some (xs ! i)"
  by (induction xs arbitrary: i) (auto simp: first_match_Cons split: if_splits)

lemma search_loop_none: "(search_loop roll xs = None) = (\<forall>s \<in> set xs. rollNo s \<noteq> roll)"
  by (induction xs) auto

lemma search_loop_some:
  "(search_loop roll xs = Some s) = (\<exists>i. first_match roll xs i \<and> xs ! i = s)"
proof (induction xs)
  case Nil
  show ?case by simp
next
  case (Cons a xs)
  show ?case
  proof (cases "rollNo a = roll")
    case True
    then show ?thesis by (auto simp: first_match_Cons)
  next
    case False
    then show ?thesis using Cons by (auto simp: first_match_Cons)
  qed
qed

lemma first_match_exists:
  assumes "\<exists>s \<in> set xs. rollNo s = roll"
  shows "\<exists>i. first_match roll xs i"
proof -
  from assms have "search_loop roll xs \<noteq> None" by (simp add: search_loop_none)
  then obtain s where "search_loop roll xs = Some s" by auto
  then show ?thesis by (auto simp: search_loop_some)
qed

lemma first_match_unique: "first_match roll xs i \<Longrightarrow> first_match roll xs j \<Longrightarrow> i = j"
  by (metis first_match_def lessThan_iff linorder_neqE_nat)

lemma update_loop_first:
  "first_match roll xs i \<Longrightarrow> update_loop roll n xs = Some (xs[i := setName n (xs ! i)])"
  by (induction xs arbitrary: i) (auto simp: first_match_Cons split: if_splits)

lemma update_loop_none: "\<forall>s \<in> set xs. rollNo s \<noteq> roll \<Longrightarrow> update_loop roll n xs = None"
  by (induction xs) auto

lemma delete_loop_none_from:
  "\<forall>j. k \<le> j \<and> j < length xs \<longrightarrow> rollNo (xs ! j) \<noteq> roll \<Longrightarrow> delete_loop roll xs k = None"
proof (induction roll xs k rule: delete_loop.induct)
  case (1 roll xs i)
  show ?case
  proof (cases "i < length xs")
    case True
    with 1 show ?thesis by (subst delete_loop.simps) auto
  next
    case False
    then show ?thesis by (subst delete_loop.simps) simp
  qed
qed

lemma delete_loop_none: "\<forall>s \<in> set xs. rollNo s \<noteq> roll \<Longrightarrow> delete_loop roll xs 0 = None"
  by (rule delete_loop_none_from) simp

lemma delete_loop_from:
  "first_match roll xs i \<Longrightarrow> k \<le> i \<Longrightarrow> delete_loop roll xs k = Some (erase xs i)"
proof (induction roll xs k rule: delete_loop.induct)
  case (1 roll xs k)
  from "1.prems" have lt: "k < length xs" by (simp add: first_match_def)
  show ?case
  proof (cases "rollNo (xs ! k) = roll")
    case True
    with "1.prems" have "k = i" by (cases "k < i") (auto simp: first_match_def)
    with True lt show ?thesis by (subst delete_loop.simps) simp
  next
    case False
    with "1.prems" have "Suc k \<le> i" by (cases "k = i") (auto simp: first_match_def)
    with 1 False lt show ?thesis by (subst delete_loop.simps) simp
  qed
qed

lemma delete_loop_first: "first_match roll xs i \<Longrightarrow> delete_loop roll xs 0 = Some (erase xs i)"
  by (rule delete_loop_from) simp_all

lemma fst_saveToFile [simp]: "students (saveToFile st) = students st"
  by (simp add: saveToFile_def)

lemma search_loop_skip:
  "\<forall>s \<in> set xs. rollNo s \<noteq> roll \<Longrightarrow> search_loop roll (xs @ ys) = search_loop roll ys"
  by (induction xs) simp_all

lemma search_loop_append_first:
  "first_match roll xs i \<Longrightarrow> search_loop roll (xs @ ys) = Some (xs ! i)"
  by (induction xs arbitrary: i) (auto simp: first_match_Cons split: if_splits)

lemma first_match_take: "first_match roll xs i \<Longrightarrow> \<forall>s \<in> set (take i xs). rollNo s \<noteq> roll"
  by (auto simp: first_match_def in_set_conv_nth)

lemma first_match_update:
  assumes "first_match roll xs i" and "rollNo s' = roll"
  shows "first_match roll (xs[i := s']) i"
  using assms by (auto simp: first_match_def)

subsection \<open>Splitting, printing and reading numbers\<close>

lemma find_char_None: "(find_char c s = None) = (c \<notin> set s)"
  by (induction s) auto

lemma find_char_append: "c \<notin> set a \<Longrightarrow> find_char c (a @ c # rest) = Some (length a)"
  by (induction a) auto

lemma split_parts_single: "comma \<notin> set a \<Longrightarrow> split_parts a = [a]"
  by (subst split_parts.simps) (simp add: find_char_None [THEN iffD2])

lemma split_parts_append:
  "comma \<notin> set a \<Longrightarrow> split_parts (a @ comma # rest) = a # split_parts rest"
  by (subst split_parts.simps) (simp add: find_char_append)

lemma getlines_Nil: "getlines [] = []"
  by (subst getlines.simps) simp

lemma getlines_append:
  "newline \<notin> set l \<Longrightarrow> getlines (l @ newline # rest) = l # getlines rest"
  by (subst getlines.simps) (simp add: find_char_append)

lemma isdigit_digit_char: "d < 10 \<Longrightarrow> isdigit (digit_char d)"
  by (simp add: isdigit_def digit_char_def)

lemma digit_val_digit_char: "d < 10 \<Longrightarrow> digit_val (digit_char d) = int d"
  by (simp add: digit_val_def digit_char_def)

lemma isdigit_plain:
  "isdigit c \<Longrightarrow> \<not> isspace c \<and> c \<noteq> CHR ''-'' \<and> c \<noteq> CHR ''+'' \<and> c \<noteq> comma \<and> c \<noteq> newline"
  by (auto simp: isdigit_def isspace_def comma_def newline_def)

lemma show_nat_digits: "\<forall>c \<in> set (show_nat n). isdigit c"
proof (induction n rule: show_nat.induct)
  case (1 n)
  show ?case
  proof (cases "n < 10")
    case True
    then show ?thesis by (subst show_nat.simps) (simp add: isdigit_digit_char)
  next
    case False
    with 1 show ?thesis by (subst show_nat.simps) (simp add: isdigit_digit_char)
  qed
qed

lemma show_nat_not_Nil: "show_nat n \<noteq> []"
  by (subst show_nat.simps) simp

lemma digits_value_snoc: "digits_value (ds @ [c]) = 10 * digits_value ds + digit_val c"
  by (simp add: digits_value_def)

lemma digits_value_show_nat: "digits_value (show_nat n) = int n"
proof (induction n rule: show_nat.induct)
  case (1 n)
  show ?case
  proof (cases "n < 10")
    case True
    then show ?thesis
      by (subst show_nat.simps) (simp add: digits_value_def digit_val_digit_char)
  next
    case False
    with 1 have "digits_value (show_nat (n div 10)) = int (n div 10)" by simp
    moreover have "10 * int (n div 10) + int (n mod 10) = int n"
      by presburger
    ultimately show ?thesis using False
      by (subst show_nat.simps) (simp add: digits_value_snoc digit_val_digit_char)
  qed
qed

lemma stoi_digits:
  assumes "ds = c # cs" and "\<forall>x \<in> set ds. isdigit x"
    and "- (2 ^ 31) \<le> digits_value ds" and "digits_value ds \<le> 2 ^ 31 - 1"
  shows "stoi ds = Inr (word_of_int (digits_value ds))"
proof -
  from assms(2) have tw: "takeWhile isdigit ds = ds" by simp
  from assms(1,2) have "isdigit c" by simp
  then have c: "\<not> isspace c" "c \<noteq> CHR ''-''" "c \<noteq> CHR ''+''" using isdigit_plain by blast+
  then have dw: "dropWhile isspace ds = ds" by (simp add: assms(1))
  have hd: "hd ds = c" "ds \<noteq> []" by (simp_all add: assms(1))
  show ?thesis
    unfolding stoi_def Let_def dw using assms(3,4) by (simp add: hd c tw)
qed

lemma stoi_minus_digits:
  assumes "ds \<noteq> []" and "\<forall>x \<in> set ds. isdigit x"
    and "- (2 ^ 31) \<le> - digits_value ds" and "- digits_value ds \<le> 2 ^ 31 - 1"
  shows "stoi (CHR ''-'' # ds) = Inr (word_of_int (- digits_value ds))"
proof -
  from assms(2) have tw: "takeWhile isdigit ds = ds" by simp
  have dw: "dropWhile isspace (CHR ''-'' # ds) = CHR ''-'' # ds" by (simp add: isspace_def)
  show ?thesis
    unfolding stoi_def Let_def dw using assms(1,3,4) by (simp add: tw)
qed

lemma stoi_show_int: "stoi (show_int (sint w)) = Inr w"
proof -
  have lo: "- (2 ^ 31) \<le> sint w" using sint_ge [of w] by simp
  have hi: "sint w \<le> 2 ^ 31 - 1" using sint_lt [of w] by simp
  have ws: "word_of_int (sint w) = w" by simp
  show ?thesis
  proof (cases "sint w < 0")
    case True
    let ?ds = "show_nat (nat (- sint w))"
    have v: "- digits_value ?ds = sint w" using True by (simp add: digits_value_show_nat)
    have "stoi (CHR ''-'' # ?ds) = Inr (word_of_int (- digits_value ?ds))"
      using lo hi by (intro stoi_minus_digits show_nat_not_Nil show_nat_digits) (simp_all only: v)
    then have "stoi (CHR ''-'' # ?ds) = Inr w" by (simp only: v ws)
    with True show ?thesis by (simp only: show_int_def if_True)
  next
    case False
    let ?ds = "show_nat (nat (sint w))"
    have v: "digits_value ?ds = sint w" using False by (simp add: digits_value_show_nat)
    obtain c cs where ds: "?ds = c # cs"
      using show_nat_not_Nil [of "nat (sint w)"] by (cases ?ds) auto
    have "stoi ?ds = Inr (word_of_int (digits_value ?ds))"
      using lo hi by (intro stoi_digits [OF ds] show_nat_digits) (simp_all only: v)
    then have "stoi ?ds = Inr w" by (simp only: v ws)
    with False show ?thesis by (simp only: show_int_def if_False)
  qed
qed


lemma show_int_chars: "c \<in> set (show_int i) \<Longrightarrow> c = CHR ''-'' \<or> isdigit c"
  using show_nat_digits by (auto simp: show_int_def split: if_splits)

lemma show_int_no_comma: "comma \<notin> set (show_int i)"
  using show_int_chars [of comma i] isdigit_plain [of comma] by (auto simp: comma_def)

lemma show_int_no_newline: "newline \<notin> set (show_int i)"
  using show_int_chars [of newline i] isdigit_plain [of newline] by (auto simp: newline_def)

lemma split_parts_line_hd:
  "split_parts (Student_line s) =
     show_int (sint (rollNo s)) #
       split_parts (name s @ [comma] @ department s @ [comma] @ email s @ [comma] @ phone s)"
  unfolding Student_line_def using split_parts_append [OF show_int_no_comma] by simp

lemma split_parts_line:
  assumes "no_comma_fields s"
  shows "split_parts (Student_line s) =
     [show_int (sint (rollNo s)), name s, department s, email s, phone s]"
  using assms
  by (simp add: split_parts_line_hd no_comma_fields_def split_parts_append split_parts_single)

lemma fromString_line: "no_comma_fields s \<Longrightarrow> fromString indet (Student_line s) = Inr s"
  by (simp add: fromString_def split_parts_line stoi_show_int Student_make_def)

lemma fromString_line_returns: "\<exists>s'. fromString indet (Student_line s) = Inr s'"
  by (simp add: fromString_def split_parts_line_hd stoi_show_int Let_def)

lemma newline_not_comma: "newline \<noteq> comma"
  by (simp add: newline_def comma_def)

lemma Student_line_no_newline: "no_newline_fields s \<Longrightarrow> newline \<notin> set (Student_line s)"
  by (simp add: Student_line_def no_newline_fields_def show_int_no_newline newline_not_comma)

lemma Student_line_not_Nil: "Student_line s \<noteq> []"
  by (simp add: Student_line_def)

lemma getlines_file:
  "\<forall>s \<in> set xs. no_newline_fields s \<Longrightarrow>
   getlines (concat (map Student_saveToFile xs) @ rest) = map Student_line xs @ getlines rest"
  by (induction xs) (simp_all add: Student_saveToFile_def getlines_append Student_line_no_newline)

lemma load_loop_append:
  "load_loop indet (ls1 @ ls2) acc =
     (case load_loop indet ls1 acc of Inl ex \<Rightarrow> Inl ex | Inr acc' \<Rightarrow> load_loop indet ls2 acc')"
  by (induction ls1 arbitrary: acc) (simp_all split: sum.split)

lemma load_loop_lines_return:
  "\<exists>ys. load_loop indet (map Student_line xs) acc = Inr (acc @ ys) \<and> length ys = length xs"
proof (induction xs arbitrary: acc)
  case Nil
  show ?case by simp
next
  case (Cons x xs)
  obtain s' where s': "fromString (indet (length acc)) (Student_line x) = Inr s'"
    using fromString_line_returns by blast
  from Cons [of "acc @ [s']"] obtain ys where
    "load_loop indet (map Student_line xs) (acc @ [s']) = Inr ((acc @ [s']) @ ys)"
    and "length ys = length xs" by blast
  then have "load_loop indet (map Student_line (x # xs)) acc = Inr (acc @ (s' # ys)) \<and>
     length (s' # ys) = length (x # xs)"
    by (simp add: s' Student_line_not_Nil)
  then show ?case by blast
qed

lemma load_loop_lines_plain:
  "\<forall>s \<in> set xs. no_comma_fields s \<Longrightarrow>
   load_loop indet (map Student_line xs) acc = Inr (acc @ xs)"
  by (induction xs arbitrary: acc) (simp_all add: fromString_line Student_line_not_Nil)

lemma fromString_other_count:
  "length (split_parts line) \<noteq> 5 \<Longrightarrow> fromString indet line = Inr (Student_default indet)"
  by (simp add: fromString_def)

lemma fromString_five:
  "length (split_parts line) = 5 \<Longrightarrow>
   fromString indet line =
     (case stoi (split_parts line ! 0) of
        Inl ex \<Rightarrow> Inl ex
      | Inr r \<Rightarrow> Inr \<lparr>rollNo = r, name = split_parts line ! 1,
                 department = split_parts line ! 2, email = split_parts line ! 3,
                 phone = split_parts line ! 4\<rparr>)"
  by (simp add: fromString_def Student_make_def Let_def split: sum.split)

subsection \<open>No line feed in the text of a record\<close>

text \<open>
  The prompts read every text with \<open>getline\<close>, and the load reads the file line by line:
  the text members of the records of a running store hold no line feed. The load
  establishes this and the three mutating operations keep it, when the texts typed
  hold none.
\<close>

lemma find_char_take: "find_char c s = Some pos \<Longrightarrow> c \<notin> set (take pos s) \<and> pos < length s"
  by (induction s arbitrary: pos) (auto split: if_splits)

lemma split_parts_subset: "p \<in> set (split_parts line) \<Longrightarrow> set p \<subseteq> set line"
proof (induction line rule: split_parts.induct)
  case (1 line)
  show ?case
  proof (cases "find_char comma line")
    case None
    with "1.prems" show ?thesis by (subst (asm) split_parts.simps) simp
  next
    case (Some pos)
    from "1.prems" Some
    have "p = take pos line \<or> p \<in> set (split_parts (drop (pos + 1) line))"
      by (subst (asm) split_parts.simps) simp
    then show ?thesis
    proof
      assume "p = take pos line"
      then show ?thesis by (simp add: set_take_subset)
    next
      assume "p \<in> set (split_parts (drop (pos + 1) line))"
      with "1.IH" [OF Some] have "set p \<subseteq> set (drop (pos + 1) line)" by simp
      then show ?thesis using set_drop_subset by fast
    qed
  qed
qed

lemma getlines_no_newline: "l \<in> set (getlines s) \<Longrightarrow> newline \<notin> set l"
proof (induction s rule: getlines.induct)
  case (1 s)
  show ?case
  proof (cases "s = []")
    case True
    with "1.prems" show ?thesis by (simp add: getlines_Nil)
  next
    case False
    show ?thesis
    proof (cases "find_char newline s")
      case None
      with False "1.prems" have "l = s" by (subst (asm) getlines.simps) simp
      with None show ?thesis by (simp add: find_char_None)
    next
      case (Some pos)
      from "1.prems" False Some
      have "l = take pos s \<or> l \<in> set (getlines (drop (pos + 1) s))"
        by (subst (asm) getlines.simps) simp
      then show ?thesis
        using find_char_take [OF Some] "1.IH" [OF False Some] by auto
    qed
  qed
qed

lemma fromString_no_newline:
  assumes "newline \<notin> set line" and "fromString indet line = Inr s"
  shows "no_newline_fields s"
proof (cases "length (split_parts line) = 5")
  case True
  have part: "newline \<notin> set (split_parts line ! k)" if "k < 5" for k
  proof -
    from that True have "split_parts line ! k \<in> set (split_parts line)" by simp
    then show ?thesis using split_parts_subset assms(1) by blast
  qed
  from True assms(2) obtain r where
    "s = Student_make r (split_parts line ! 1) (split_parts line ! 2) (split_parts line ! 3)
           (split_parts line ! 4)"
    by (auto simp: fromString_def Let_def split: sum.splits)
  then show ?thesis by (simp add: no_newline_fields_def Student_make_def part)
next
  case False
  with assms(2) have "s = Student_default indet" by (simp add: fromString_def)
  then show ?thesis by (simp add: no_newline_fields_def Student_default_def)
qed

lemma load_loop_no_newline:
  "\<forall>l \<in> set ls. newline \<notin> set l \<Longrightarrow> \<forall>s \<in> set acc. no_newline_fields s \<Longrightarrow>
   load_loop indet ls acc = Inr xs \<Longrightarrow> \<forall>s \<in> set xs. no_newline_fields s"
proof (induction ls arbitrary: acc)
  case Nil
  then show ?case by simp
next
  case (Cons l ls)
  show ?case
  proof (cases "l = []")
    case True
    with Cons show ?thesis by simp
  next
    case False
    with Cons.prems(3) obtain s where s: "fromString (indet (length acc)) l = Inr s"
      and rest: "load_loop indet ls (acc @ [s]) = Inr xs"
      by (auto split: sum.splits)
    from Cons.prems(1) s have "no_newline_fields s" by (auto intro: fromString_no_newline)
    with Cons.prems(2) have "\<forall>t \<in> set (acc @ [s]). no_newline_fields t" by simp
    with Cons.IH [OF _ _ rest] Cons.prems(1) show ?thesis by simp
  qed
qed

lemma StudentSystem_new_no_newline:
  assumes "StudentSystem_new indet content = Inr st"
  shows "\<forall>s \<in> set (students st). no_newline_fields s"
proof -
  let ?ls = "case content of None \<Rightarrow> [] | Some c \<Rightarrow> getlines c"
  have nl: "\<forall>l \<in> set ?ls. newline \<notin> set l"
    by (cases content) (auto dest: getlines_no_newline)
  from assms obtain xs where xs: "load_loop indet ?ls [] = Inr xs" and st: "students st = xs"
    by (auto simp: StudentSystem_new_def loadFromFile_def split: sum.splits)
  from load_loop_no_newline [OF nl _ xs] st show ?thesis by simp
qed

lemma addStudent_no_newline:
  assumes "\<forall>s \<in> set (students st). no_newline_fields s"
    and "newline \<notin> set nm" "newline \<notin> set dept" "newline \<notin> set em" "newline \<notin> set ph"
  shows "\<forall>s \<in> set (students (fst (addStudent st roll nm dept em ph))). no_newline_fields s"
  using assms by (simp add: addStudent_def Student_make_def no_newline_fields_def)

lemma setName_no_newline:
  "no_newline_fields s \<Longrightarrow> newline \<notin> set n \<Longrightarrow> no_newline_fields (setName n s)"
  by (simp add: setName_def no_newline_fields_def)

lemma update_loop_no_newline:
  "\<forall>s \<in> set xs. no_newline_fields s \<Longrightarrow> newline \<notin> set newName \<Longrightarrow>
   update_loop roll newName xs = Some ys \<Longrightarrow> \<forall>s \<in> set ys. no_newline_fields s"
proof (induction xs arbitrary: ys)
  case Nil
  then show ?case by simp
next
  case (Cons x xs)
  show ?case
  proof (cases "rollNo x = roll")
    case True
    with Cons.prems(3) have "ys = setName newName x # xs" by simp
    with Cons.prems(1,2) show ?thesis by (simp add: setName_no_newline)
  next
    case False
    with Cons.prems(3) obtain zs where zs: "update_loop roll newName xs = Some zs"
      and ys: "ys = x # zs" by auto
    from Cons.prems(1) have "\<forall>s \<in> set xs. no_newline_fields s" by simp
    from Cons.IH [OF this Cons.prems(2) zs] Cons.prems(1) ys show ?thesis by simp
  qed
qed

lemma updateStudent_no_newline:
  assumes "\<forall>s \<in> set (students st). no_newline_fields s" and "newline \<notin> set newName"
  shows "\<forall>s \<in> set (students (fst (updateStudent st roll newName))). no_newline_fields s"
proof (cases "update_loop roll newName (students st)")
  case None
  with assms(1) show ?thesis by (simp add: updateStudent_def)
next
  case (Some ys)
  from update_loop_no_newline [OF assms Some] Some show ?thesis
    by (simp add: updateStudent_def)
qed

lemma deleteStudent_no_newline:
  assumes "\<forall>s \<in> set (students st). no_newline_fields s"
  shows "\<forall>s \<in> set (students (fst (deleteStudent st roll))). no_newline_fields s"
proof (cases "\<exists>s \<in> set (students st). rollNo s = roll")
  case True
  then obtain i where fm: "first_match roll (students st) i" using first_match_exists by blast
  have "set (erase (students st) i) \<subseteq> set (students st)"
    using set_take_subset [of i "students st"] set_drop_subset [of "Suc i" "students st"]
    by (auto simp: erase_def)
  with assms show ?thesis
    by (auto simp: deleteStudent_def delete_loop_first [OF fm])
next
  case False
  then have "delete_loop roll (students st) 0 = None" by (simp add: delete_loop_none)
  with assms show ?thesis by (simp add: deleteStudent_def)
qed

subsection \<open>Persistence after a mutation\<close>

text \<open>
  Claim C1. From any state of the store, after \<open>addStudent\<close>, and after an
  \<open>updateStudent\<close> or a \<open>deleteStudent\<close> that reports success, the backing file holds
  exactly the lines of \<open>Student::saveToFile\<close> for the records of the vector, one after
  the other in the order of the vector.
\<close>

theorem mutation_persists:
  "consistent (fst (addStudent st roll nm dept em ph)) \<and>
   (snd (updateStudent st roll newName) = [Updated] \<longrightarrow>
      consistent (fst (updateStudent st roll newName))) \<and>
   (snd (deleteStudent st roll) = [Deleted] \<longrightarrow>
      consistent (fst (deleteStudent st roll)))"
  by (simp add: addStudent_def updateStudent_def deleteStudent_def consistent_saveToFile
      split: option.split)

theorem mutation_persists_witness:
  "snd (updateStudent store2 2 ''Rob'') = [Updated] \<and>
   consistent (fst (updateStudent store2 2 ''Rob'')) \<and>
   snd (deleteStudent store2 2) = [Deleted] \<and>
   consistent (fst (deleteStudent store2 2))"
proof -
  have u: "snd (updateStudent store2 2 ''Rob'') = [Updated]" by code_simp
  have d: "snd (deleteStudent store2 2) = [Deleted]" by code_simp
  from u d mutation_persists [of store2 2 "[]" "[]" "[]" "[]" "''Rob''"]
  show ?thesis by simp
qed


text \<open>
  Claim C8. \<open>addStudent\<close> puts the record built from the five values read at the end of
  the vector, whatever roll numbers the vector holds already; the records that were
  there keep their values and their positions; the file is rewritten from the new
  vector and the operation reports success in every case.
\<close>

theorem addStudent_appends:
  "students (fst (addStudent st roll nm dept em ph)) =
     students st @ [\<lparr>rollNo = roll, name = nm, department = dept, email = em, phone = ph\<rparr>] \<and>
   take (length (students st)) (students (fst (addStudent st roll nm dept em ph))) = students st \<and>
   snd (addStudent st roll nm dept em ph) = [Added] \<and>
   consistent (fst (addStudent st roll nm dept em ph))"
  by (simp add: addStudent_def Student_make_def consistent_saveToFile)


subsection \<open>Reading operations\<close>

lemma funpow_id: "(\<And>s. f s = s) \<Longrightarrow> (f ^^ n) s = s"
  by (induction n) simp_all

lemma students_txt_load_loop:
  "file_after (loadFromFile indet st) = students_txt st"
  by (simp add: loadFromFile_def file_after_def split: sum.split)


text \<open>
  Claim C9. Viewing any number of times, or searching for any sequence of roll numbers,
  gives back the state it started from, so the backing file is the same, byte for
  byte; and the load made when the store is constructed leaves the file as it found
  it, whether it returns or is left by an exception.
\<close>

theorem reads_leave_file:
  "((\<lambda>s. fst (viewStudents s)) ^^ n) st = st \<and>
   fold (\<lambda>roll s. fst (searchStudent s roll)) rolls st = st \<and>
   students_txt (((\<lambda>s. fst (viewStudents s)) ^^ n) st) = students_txt st \<and>
   students_txt (fold (\<lambda>roll s. fst (searchStudent s roll)) rolls st) = students_txt st \<and>
   file_after (StudentSystem_new indet content) = content"
proof -
  have v: "fst (viewStudents s) = s" for s by (simp add: viewStudents_def)
  have s: "fst (searchStudent s roll) = s" for s roll
    by (simp add: searchStudent_def split: option.split)
  have 1: "((\<lambda>s. fst (viewStudents s)) ^^ n) st = st" by (rule funpow_id) (rule v)
  have 2: "fold (\<lambda>roll s. fst (searchStudent s roll)) rolls st = st"
    by (induction rolls) (simp_all add: s)
  have 3: "file_after (StudentSystem_new indet content) = content"
    by (simp add: StudentSystem_new_def students_txt_load_loop)
  from 1 2 3 show ?thesis by simp
qed


text \<open>
  Claim C7. \<open>searchStudent\<close> displays the record at the first position of the vector
  whose roll number is the one asked for, and such a position exists as soon as some
  record has that roll number; it reports not-found when none has. After two records
  with one roll number have been added, the search shows what it showed after the first
  addition, which is the first of the two when the roll number was new.
\<close>

theorem searchStudent_first:
  "(\<forall>i. first_match roll (students st) i \<longrightarrow>
        searchStudent st roll = (st, [Display (students st ! i)])) \<and>
   ((\<forall>s \<in> set (students st). rollNo s \<noteq> roll) \<longrightarrow> searchStudent st roll = (st, [Not_found])) \<and>
   ((\<exists>s \<in> set (students st). rollNo s = roll) \<longrightarrow> (\<exists>i. first_match roll (students st) i)) \<and>
   (let st1 = fst (addStudent st roll n1 d1 e1 p1);
        st2 = fst (addStudent st1 roll n2 d2 e2 p2)
    in snd (searchStudent st2 roll) = snd (searchStudent st1 roll) \<and>
       ((\<forall>s \<in> set (students st). rollNo s \<noteq> roll) \<longrightarrow>
          snd (searchStudent st2 roll) = [Display (Student_make roll n1 d1 e1 p1)]))"
proof -
  have app: "search_loop roll (xs @ ys) =
      (case search_loop roll xs of Some s \<Rightarrow> Some s | None \<Rightarrow> search_loop roll ys)" for xs ys
    by (induction xs) simp_all
  have a: "\<forall>i. first_match roll (students st) i \<longrightarrow>
        searchStudent st roll = (st, [Display (students st ! i)])"
    by (simp add: searchStudent_def search_loop_first)
  have b: "(\<forall>s \<in> set (students st). rollNo s \<noteq> roll) \<longrightarrow> searchStudent st roll = (st, [Not_found])"
  proof
    assume "\<forall>s \<in> set (students st). rollNo s \<noteq> roll"
    then have "search_loop roll (students st) = None" by (simp add: search_loop_none)
    then show "searchStudent st roll = (st, [Not_found])" by (simp add: searchStudent_def)
  qed
  have c: "(\<exists>s \<in> set (students st). rollNo s = roll) \<longrightarrow> (\<exists>i. first_match roll (students st) i)"
    using first_match_exists by blast
  have d: "let st1 = fst (addStudent st roll n1 d1 e1 p1);
        st2 = fst (addStudent st1 roll n2 d2 e2 p2)
    in snd (searchStudent st2 roll) = snd (searchStudent st1 roll) \<and>
       ((\<forall>s \<in> set (students st). rollNo s \<noteq> roll) \<longrightarrow>
          snd (searchStudent st2 roll) = [Display (Student_make roll n1 d1 e1 p1)])"
    using search_loop_none [of roll "students st"]
    by (auto simp: Let_def addStudent_def searchStudent_def app Student_make_def
        split: option.split)
  from a b c d show ?thesis by blast
qed

theorem searchStudent_first_witness:
  "first_match 2 (students store2) 1 \<and>
   searchStudent store2 2 = (store2, [Display bob]) \<and>
   list_all (\<lambda>s. rollNo s \<noteq> 3) (students store2) \<and>
   searchStudent store2 3 = (store2, [Not_found])"
proof -
  have f: "first_match 2 (students store2) 1" by code_simp
  have n: "list_all (\<lambda>s. rollNo s \<noteq> 3) (students store2)" by code_simp
  have nth: "students store2 ! 1 = bob" by code_simp
  from n have n': "\<forall>s \<in> set (students store2). rollNo s \<noteq> 3" by (simp add: list_all_iff)
  from f n n' nth searchStudent_first [of 2 store2] searchStudent_first [of 3 store2]
  show ?thesis by metis
qed

subsection \<open>Update and delete\<close>

text \<open>
  Claim C6. When some record has the roll number asked for, \<open>updateStudent\<close> changes the
  vector at one position only, the first one with that roll number: the record there
  gets the new name and keeps its roll number, department, email and phone, every
  other record is the same, that position is still the first with the roll number, and
  a search shows the renamed record. When no record has the roll number, the operation
  reports not-found and the state is the one it started from.
\<close>

theorem updateStudent_first_match:
  "((\<exists>s \<in> set (students st). rollNo s = roll) \<longrightarrow>
      (\<exists>i. first_match roll (students st) i \<and>
           updateStudent st roll newName =
             (saveToFile (st\<lparr>students := (students st)[i := (students st ! i)\<lparr>name := newName\<rparr>]\<rparr>),
              [Updated]) \<and>
           (let xs' = students (fst (updateStudent st roll newName))
            in length xs' = length (students st) \<and>
               first_match roll xs' i \<and>
               name (xs' ! i) = newName \<and>
               rollNo (xs' ! i) = rollNo (students st ! i) \<and>
               department (xs' ! i) = department (students st ! i) \<and>
               email (xs' ! i) = email (students st ! i) \<and>
               phone (xs' ! i) = phone (students st ! i) \<and>
               (\<forall>j. j < length (students st) \<and> j \<noteq> i \<longrightarrow> xs' ! j = students st ! j)) \<and>
           snd (searchStudent (fst (updateStudent st roll newName)) roll) =
             [Display ((students st ! i)\<lparr>name := newName\<rparr>)])) \<and>
   ((\<forall>s \<in> set (students st). rollNo s \<noteq> roll) \<longrightarrow>
      updateStudent st roll newName = (st, [Not_found]))"
proof (intro conjI impI)
  assume "\<exists>s \<in> set (students st). rollNo s = roll"
  then obtain i where fm: "first_match roll (students st) i"
    using first_match_exists by blast
  let ?xs = "students st"
  let ?s' = "(?xs ! i)\<lparr>name := newName\<rparr>"
  from fm have lt: "i < length ?xs" and roll: "rollNo (?xs ! i) = roll"
    by (simp_all add: first_match_def)
  have upd: "updateStudent st roll newName = (saveToFile (st\<lparr>students := ?xs[i := ?s']\<rparr>), [Updated])"
    by (simp add: updateStudent_def update_loop_first [OF fm] setName_def)
  have fm': "first_match roll (?xs[i := ?s']) i"
    using fm roll by (intro first_match_update) simp_all
  have srch: "snd (searchStudent (fst (updateStudent st roll newName)) roll) = [Display ?s']"
    using search_loop_first [OF fm'] lt by (simp add: upd searchStudent_def)
  have frame: "let xs' = students (fst (updateStudent st roll newName))
            in length xs' = length ?xs \<and>
               first_match roll xs' i \<and>
               name (xs' ! i) = newName \<and>
               rollNo (xs' ! i) = rollNo (?xs ! i) \<and>
               department (xs' ! i) = department (?xs ! i) \<and>
               email (xs' ! i) = email (?xs ! i) \<and>
               phone (xs' ! i) = phone (?xs ! i) \<and>
               (\<forall>j. j < length ?xs \<and> j \<noteq> i \<longrightarrow> xs' ! j = ?xs ! j)"
    using fm' lt by (simp add: upd Let_def)
  from fm upd frame srch
  show "\<exists>i. first_match roll (students st) i \<and>
           updateStudent st roll newName =
             (saveToFile (st\<lparr>students := (students st)[i := (students st ! i)\<lparr>name := newName\<rparr>]\<rparr>),
              [Updated]) \<and>
           (let xs' = students (fst (updateStudent st roll newName))
            in length xs' = length (students st) \<and>
               first_match roll xs' i \<and>
               name (xs' ! i) = newName \<and>
               rollNo (xs' ! i) = rollNo (students st ! i) \<and>
               department (xs' ! i) = department (students st ! i) \<and>
               email (xs' ! i) = email (students st ! i) \<and>
               phone (xs' ! i) = phone (students st ! i) \<and>
               (\<forall>j. j < length (students st) \<and> j \<noteq> i \<longrightarrow> xs' ! j = students st ! j)) \<and>
           snd (searchStudent (fst (updateStudent st roll newName)) roll) =
             [Display ((students st ! i)\<lparr>name := newName\<rparr>)]"
    by blast
next
  assume "\<forall>s \<in> set (students st). rollNo s \<noteq> roll"
  then show "updateStudent st roll newName = (st, [Not_found])"
    by (simp add: updateStudent_def update_loop_none)
qed

theorem updateStudent_first_match_witness:
  "updateStudent store2 1 ''Alicia'' =
     (saveToFile (store2\<lparr>students := [alice\<lparr>name := ''Alicia''\<rparr>, bob]\<rparr>), [Updated]) \<and>
   snd (searchStudent (fst (updateStudent store2 1 ''Alicia'')) 1) =
     [Display (alice\<lparr>name := ''Alicia''\<rparr>)] \<and>
   updateStudent store2 3 ''Carol'' = (store2, [Not_found])"
proof -
  have p: "\<exists>s \<in> set (students store2). rollNo s = 1" by code_simp
  have f0: "first_match 1 (students store2) 0" by code_simp
  have a: "\<forall>s \<in> set (students store2). rollNo s \<noteq> 3" by code_simp
  have xs: "students store2 = [alice, bob]" by (simp add: store2_def)
  from p updateStudent_first_match [of store2 1 "''Alicia''"]
  obtain i where fm: "first_match 1 (students store2) i"
    and u: "updateStudent store2 1 ''Alicia'' =
             (saveToFile (store2\<lparr>students := (students store2)[i := (students store2 ! i)\<lparr>name := ''Alicia''\<rparr>]\<rparr>),
              [Updated])"
    and s: "snd (searchStudent (fst (updateStudent store2 1 ''Alicia'')) 1) =
             [Display ((students store2 ! i)\<lparr>name := ''Alicia''\<rparr>)]"
    by blast
  from fm f0 have i: "i = 0" by (rule first_match_unique)
  from a updateStudent_first_match [of store2 3 "''Carol''"]
  have n: "updateStudent store2 3 ''Carol'' = (store2, [Not_found])" by blast
  from u s n show ?thesis by (simp add: i xs)
qed

text \<open>
  Claim C5, as the code has it. When some record has the roll number asked for,
  \<open>deleteStudent\<close> erases the record at the first position with that roll number, so
  that the later records move down by one and the vector is one shorter, and rewrites
  the file. A search for the roll number afterwards reports not-found exactly when no
  later record had the same roll number: roll numbers may repeat, and then the search
  shows the first of the later records with that roll number. When no record has the
  roll number, the operation reports not-found and the state is the one it started
  from.
\<close>

theorem deleteStudent_first_match:
  "((\<exists>s \<in> set (students st). rollNo s = roll) \<longrightarrow>
      (\<exists>i. first_match roll (students st) i \<and>
           deleteStudent st roll =
             (saveToFile (st\<lparr>students := take i (students st) @ drop (Suc i) (students st)\<rparr>),
              [Deleted]) \<and>
           length (students (fst (deleteStudent st roll))) + 1 = length (students st) \<and>
           consistent (fst (deleteStudent st roll)) \<and>
           (snd (searchStudent (fst (deleteStudent st roll)) roll) = [Not_found]) =
             (\<forall>s \<in> set (drop (Suc i) (students st)). rollNo s \<noteq> roll) \<and>
           (\<forall>k. first_match roll (drop (Suc i) (students st)) k \<longrightarrow>
              snd (searchStudent (fst (deleteStudent st roll)) roll) =
                [Display (drop (Suc i) (students st) ! k)]) \<and>
           ((\<exists>s \<in> set (drop (Suc i) (students st)). rollNo s = roll) \<longrightarrow>
              (\<exists>k. first_match roll (drop (Suc i) (students st)) k)))) \<and>
   ((\<forall>s \<in> set (students st). rollNo s \<noteq> roll) \<longrightarrow> deleteStudent st roll = (st, [Not_found]))"
proof (intro conjI impI)
  assume "\<exists>s \<in> set (students st). rollNo s = roll"
  then obtain i where fm: "first_match roll (students st) i"
    using first_match_exists by blast
  let ?xs = "students st"
  from fm have lt: "i < length ?xs" by (simp add: first_match_def)
  have del: "deleteStudent st roll =
      (saveToFile (st\<lparr>students := take i ?xs @ drop (Suc i) ?xs\<rparr>), [Deleted])"
    by (simp add: deleteStudent_def delete_loop_first [OF fm] erase_def)
  have len: "length (students (fst (deleteStudent st roll))) + 1 = length ?xs"
    using lt by (simp add: del)
  have cons: "consistent (fst (deleteStudent st roll))"
    by (simp add: del consistent_saveToFile)
  have skip: "search_loop roll (take i ?xs @ drop (Suc i) ?xs) =
      search_loop roll (drop (Suc i) ?xs)"
    using first_match_take [OF fm] by (rule search_loop_skip)
  then have srch: "(snd (searchStudent (fst (deleteStudent st roll)) roll) = [Not_found]) =
             (\<forall>s \<in> set (drop (Suc i) ?xs). rollNo s \<noteq> roll)"
    by (cases "search_loop roll (drop (Suc i) ?xs)")
       (simp_all add: del searchStudent_def search_loop_none [symmetric])
  have later: "\<forall>k. first_match roll (drop (Suc i) ?xs) k \<longrightarrow>
      snd (searchStudent (fst (deleteStudent st roll)) roll) =
        [Display (drop (Suc i) ?xs ! k)]"
  proof (intro allI impI)
    fix k
    assume "first_match roll (drop (Suc i) ?xs) k"
    then have "search_loop roll (drop (Suc i) ?xs) = Some (drop (Suc i) ?xs ! k)"
      by (rule search_loop_first)
    with skip show "snd (searchStudent (fst (deleteStudent st roll)) roll) =
        [Display (drop (Suc i) ?xs ! k)]"
      by (simp add: del searchStudent_def)
  qed
  have ex: "(\<exists>s \<in> set (drop (Suc i) ?xs). rollNo s = roll) \<longrightarrow>
      (\<exists>k. first_match roll (drop (Suc i) ?xs) k)"
    using first_match_exists by blast
  from fm del len cons srch later ex
  show "\<exists>i. first_match roll (students st) i \<and>
           deleteStudent st roll =
             (saveToFile (st\<lparr>students := take i (students st) @ drop (Suc i) (students st)\<rparr>),
              [Deleted]) \<and>
           length (students (fst (deleteStudent st roll))) + 1 = length (students st) \<and>
           consistent (fst (deleteStudent st roll)) \<and>
           (snd (searchStudent (fst (deleteStudent st roll)) roll) = [Not_found]) =
             (\<forall>s \<in> set (drop (Suc i) (students st)). rollNo s \<noteq> roll) \<and>
           (\<forall>k. first_match roll (drop (Suc i) (students st)) k \<longrightarrow>
              snd (searchStudent (fst (deleteStudent st roll)) roll) =
                [Display (drop (Suc i) (students st) ! k)]) \<and>
           ((\<exists>s \<in> set (drop (Suc i) (students st)). rollNo s = roll) \<longrightarrow>
              (\<exists>k. first_match roll (drop (Suc i) (students st)) k))"
    by (intro exI [of _ i] conjI)
next
  assume "\<forall>s \<in> set (students st). rollNo s \<noteq> roll"
  then show "deleteStudent st roll = (st, [Not_found])"
    by (simp add: deleteStudent_def delete_loop_none)
qed

theorem deleteStudent_first_match_witness:
  "deleteStudent store2 2 = (saveToFile (store2\<lparr>students := [alice]\<rparr>), [Deleted]) \<and>
   snd (searchStudent (fst (deleteStudent store2 2)) 2) = [Not_found] \<and>
   deleteStudent store2 3 = (store2, [Not_found]) \<and>
   deleteStudent store3 1 = (saveToFile (store3\<lparr>students := [bob, alma]\<rparr>), [Deleted]) \<and>
   snd (searchStudent (fst (deleteStudent store3 1)) 1) = [Display alma]"
proof -
  have p: "\<exists>s \<in> set (students store2). rollNo s = 2" by code_simp
  have f1: "first_match 2 (students store2) 1" by code_simp
  have a: "\<forall>s \<in> set (students store2). rollNo s \<noteq> 3" by code_simp
  have xs: "students store2 = [alice, bob]" by (simp add: store2_def)
  from p deleteStudent_first_match [of store2 2]
  obtain i where fm: "first_match 2 (students store2) i"
    and d: "deleteStudent store2 2 =
             (saveToFile (store2\<lparr>students := take i (students store2) @ drop (Suc i) (students store2)\<rparr>),
              [Deleted])"
    and s: "(snd (searchStudent (fst (deleteStudent store2 2)) 2) = [Not_found]) =
             (\<forall>s \<in> set (drop (Suc i) (students store2)). rollNo s \<noteq> 2)"
    by blast
  from fm f1 have i: "i = 1" by (rule first_match_unique)
  from a deleteStudent_first_match [of store2 3]
  have n: "deleteStudent store2 3 = (store2, [Not_found])" by blast
  have p3: "\<exists>s \<in> set (students store3). rollNo s = 1" by code_simp
  have f3: "first_match 1 (students store3) 0" by code_simp
  have l3: "first_match 1 (drop (Suc 0) (students store3)) 1" by code_simp
  have xs3: "students store3 = [alice, bob, alma]" by (simp add: store3_def)
  from p3 deleteStudent_first_match [of store3 1]
  obtain j where fm3: "first_match 1 (students store3) j"
    and d3: "deleteStudent store3 1 =
             (saveToFile (store3\<lparr>students := take j (students store3) @ drop (Suc j) (students store3)\<rparr>),
              [Deleted])"
    and s3: "\<forall>k. first_match 1 (drop (Suc j) (students store3)) k \<longrightarrow>
              snd (searchStudent (fst (deleteStudent store3 1)) 1) =
                [Display (drop (Suc j) (students store3) ! k)]"
    by blast
  from fm3 f3 have j: "j = 0" by (rule first_match_unique)
  from s3 l3 have "snd (searchStudent (fst (deleteStudent store3 1)) 1) =
      [Display (drop (Suc 0) (students store3) ! 1)]"
    unfolding j by blast
  then have s3': "snd (searchStudent (fst (deleteStudent store3 1)) 1) = [Display alma]"
    by (simp add: xs3)
  from d s n d3 s3' show ?thesis by (simp add: i j xs xs3)
qed

text \<open>
  The claim as the specification words it fails where a roll number repeats: with
  two records of roll number 1 in the vector, the search after the deletion shows the
  second of them.
\<close>

theorem deleteStudent_counterexample:
  "snd (searchStudent \<lparr>students = [alice, bob, alma], students_txt = None\<rparr> 1) = [Display alice] \<and>
   deleteStudent \<lparr>students = [alice, bob, alma], students_txt = None\<rparr> 1 =
     (saveToFile \<lparr>students = [bob, alma], students_txt = None\<rparr>, [Deleted]) \<and>
   snd (searchStudent (fst (deleteStudent \<lparr>students = [alice, bob, alma], students_txt = None\<rparr> 1)) 1)
     = [Display alma] \<and>
   snd (searchStudent (fst (deleteStudent \<lparr>students = [alice, bob, alma], students_txt = None\<rparr> 1)) 1)
     \<noteq> [Not_found]"
  by code_simp

subsection \<open>Parsing a stored line\<close>

text \<open>
  Claim C2. For a record whose name, department, email and phone hold no comma,
  \<open>fromString\<close> of the line that \<open>saveToFile\<close> prints for it (up to the \<open>endl\<close>) gives the
  record back, with the same rollNo and the same four texts. When they hold no line
  feed either, the text written for the record is read back by \<open>getline\<close> as that one
  line, and a store started on a file with that text holds exactly the record.
\<close>

theorem parse_serialize_roundtrip:
  "(no_comma_fields r \<longrightarrow> fromString indet (Student_line r) = Inr r) \<and>
   (no_comma_fields r \<and> no_newline_fields r \<longrightarrow>
      getlines (Student_saveToFile r) = [Student_line r] \<and>
      StudentSystem_new indets (Some (Student_saveToFile r)) =
        Inr \<lparr>students = [r], students_txt = Some (Student_saveToFile r)\<rparr>)"
proof (intro conjI impI)
  assume "no_comma_fields r"
  then show "fromString indet (Student_line r) = Inr r" by (rule fromString_line)
next
  assume h: "no_comma_fields r \<and> no_newline_fields r"
  then have "newline \<notin> set (Student_line r)" by (simp add: Student_line_no_newline)
  then show "getlines (Student_saveToFile r) = [Student_line r]"
    by (simp add: Student_saveToFile_def getlines_append getlines_Nil)
next
  assume h: "no_comma_fields r \<and> no_newline_fields r"
  then have "newline \<notin> set (Student_line r)" by (simp add: Student_line_no_newline)
  then have g: "getlines (Student_saveToFile r) = [Student_line r]"
    by (simp add: Student_saveToFile_def getlines_append getlines_Nil)
  from h have "fromString (indets 0) (Student_line r) = Inr r" by (simp add: fromString_line)
  then show "StudentSystem_new indets (Some (Student_saveToFile r)) =
        Inr \<lparr>students = [r], students_txt = Some (Student_saveToFile r)\<rparr>"
    by (simp add: StudentSystem_new_def loadFromFile_def g Student_line_not_Nil)
qed

theorem parse_serialize_roundtrip_witness:
  "no_comma_fields alice \<and> no_newline_fields alice \<and>
   Student_saveToFile alice = ''1,Alice,CS,a@x.com,555'' @ [newline] \<and>
   fromString 0 ''1,Alice,CS,a@x.com,555'' = Inr alice \<and>
   StudentSystem_new (\<lambda>k. 0) (Some (Student_saveToFile alice)) =
     Inr \<lparr>students = [alice], students_txt = Some (Student_saveToFile alice)\<rparr>"
proof -
  have c: "no_comma_fields alice" by code_simp
  have n: "no_newline_fields alice" by code_simp
  have l: "Student_line alice = ''1,Alice,CS,a@x.com,555''" by code_simp
  from c n parse_serialize_roundtrip [of alice 0 "\<lambda>k. 0"] show ?thesis
    by (simp add: l [symmetric] Student_saveToFile_def)
qed

text \<open>
  Claim C10. On a line that splits into exactly five parts, \<open>fromString\<close> is
  \<open>std::stoi\<close> of the first part followed by the constructor on the other four, and an
  exception of \<open>std::stoi\<close> is the result of \<open>fromString\<close>: nothing guards the conversion.
  Both exceptions occur on lines of five parts: \<open>abc\<close> as first part has no digit
  (\<open>std::invalid_argument\<close>), and \<open>99999999999\<close> does not fit an int (\<open>std::out_of_range\<close>);
  no record is returned then.
\<close>

theorem fromString_five_parts:
  "(length (split_parts line) = 5 \<longrightarrow>
      fromString indet line =
        (case stoi (split_parts line ! 0) of
           Inl ex \<Rightarrow> Inl ex
         | Inr r \<Rightarrow> Inr \<lparr>rollNo = r, name = split_parts line ! 1,
                    department = split_parts line ! 2, email = split_parts line ! 3,
                    phone = split_parts line ! 4\<rparr>)) \<and>
   length (split_parts ''abc,n,d,e,p'') = 5 \<and>
   fromString indet ''abc,n,d,e,p'' = Inl Invalid_argument \<and>
   length (split_parts ''99999999999,n,d,e,p'') = 5 \<and>
   fromString indet ''99999999999,n,d,e,p'' = Inl Out_of_range"
proof -
  have a: "split_parts ''abc,n,d,e,p'' = [''abc'', ''n'', ''d'', ''e'', ''p'']" by code_simp
  have b: "stoi ''abc'' = Inl Invalid_argument" by code_simp
  have c: "split_parts ''99999999999,n,d,e,p'' = [''99999999999'', ''n'', ''d'', ''e'', ''p'']"
    by code_simp
  have d: "stoi ''99999999999'' = Inl Out_of_range" by code_simp
  show ?thesis
    using fromString_five [of "''abc,n,d,e,p''" indet]
      fromString_five [of "''99999999999,n,d,e,p''" indet] fromString_five [of line indet]
    by (simp add: a b c d)
qed

theorem fromString_five_parts_witness:
  "length (split_parts ''7,n,d,e,p'') = 5 \<and>
   fromString 0 ''7,n,d,e,p'' =
     Inr \<lparr>rollNo = 7, name = ''n'', department = ''d'', email = ''e'', phone = ''p''\<rparr>"
proof -
  have a: "split_parts ''7,n,d,e,p'' = [''7'', ''n'', ''d'', ''e'', ''p'']" by code_simp
  have b: "stoi ''7'' = Inr 7" by code_simp
  from fromString_five_parts [of "''7,n,d,e,p''" 0] show ?thesis
    by (simp add: a b)
qed

text \<open>
  Claim C3, evaluated where the code departs from it. The line \<open>a,b,c\<close> splits into
  three parts, so \<open>fromString\<close> returns \<open>Student()\<close>, without an exception, and the four
  texts are empty; \<open>rollNo\<close> is not set by that constructor, so it is whatever the
  uninitialised member holds, 7 here, and not 0. A store started on a file with that
  line holds this record.
\<close>

theorem fromString_default_rollNo:
  "length (split_parts ''a,b,c'') = 3 \<and>
   fromString 7 ''a,b,c'' =
     Inr \<lparr>rollNo = 7, name = [], department = [], email = [], phone = []\<rparr> \<and>
   fromString 7 ''a,b,c'' \<noteq>
     Inr \<lparr>rollNo = 0, name = [], department = [], email = [], phone = []\<rparr> \<and>
   StudentSystem_new (\<lambda>k. 7) (Some (''a,b,c'' @ [newline])) =
     Inr \<lparr>students = [\<lparr>rollNo = 7, name = [], department = [], email = [], phone = []\<rparr>],
          students_txt = Some (''a,b,c'' @ [newline])\<rparr>"
  by code_simp

subsection \<open>Adding a record\<close>

text \<open>
  Claim C4, as the code has it. If no record of the vector has the roll number of the
  new record, a search for it after \<open>addStudent\<close> shows the new record; if some record
  has it, the search shows the record at the first position of the old vector with
  that roll number, as it did before. If the texts of the new record hold no comma and
  no line feed, and the texts of the records of the vector no line feed, a store
  started on the file that \<open>addStudent\<close> wrote holds as many records as the vector,
  and the last of them is the new record.
\<close>

theorem addStudent_find_reload:
  "((\<forall>s \<in> set (students st). rollNo s \<noteq> roll) \<longrightarrow>
      snd (searchStudent (fst (addStudent st roll nm dept em ph)) roll) =
        [Display (Student_make roll nm dept em ph)]) \<and>
   (\<forall>i. first_match roll (students st) i \<longrightarrow>
      snd (searchStudent (fst (addStudent st roll nm dept em ph)) roll) =
        [Display (students st ! i)]) \<and>
   ((\<exists>s \<in> set (students st). rollNo s = roll) \<longrightarrow> (\<exists>i. first_match roll (students st) i)) \<and>
   (no_comma_fields (Student_make roll nm dept em ph) \<and>
    no_newline_fields (Student_make roll nm dept em ph) \<and>
    (\<forall>s \<in> set (students st). no_newline_fields s) \<longrightarrow>
      (\<exists>xs. StudentSystem_new indet (students_txt (fst (addStudent st roll nm dept em ph))) =
              Inr \<lparr>students = xs @ [Student_make roll nm dept em ph],
                   students_txt = students_txt (fst (addStudent st roll nm dept em ph))\<rparr> \<and>
            length xs = length (students st)))"
proof (intro conjI impI allI)
  assume "\<forall>s \<in> set (students st). rollNo s \<noteq> roll"
  then have "search_loop roll (students st @ [Student_make roll nm dept em ph]) =
      search_loop roll [Student_make roll nm dept em ph]"
    by (rule search_loop_skip)
  then show "snd (searchStudent (fst (addStudent st roll nm dept em ph)) roll) =
        [Display (Student_make roll nm dept em ph)]"
    by (simp add: addStudent_def searchStudent_def Student_make_def)
next
  fix i
  assume "first_match roll (students st) i"
  then have "search_loop roll (students st @ [Student_make roll nm dept em ph]) =
      Some (students st ! i)"
    by (rule search_loop_append_first)
  then show "snd (searchStudent (fst (addStudent st roll nm dept em ph)) roll) =
        [Display (students st ! i)]"
    by (simp add: addStudent_def searchStudent_def)
next
  assume "\<exists>s \<in> set (students st). rollNo s = roll"
  then show "\<exists>i. first_match roll (students st) i" by (rule first_match_exists)
next
  let ?r = "Student_make roll nm dept em ph"
  let ?f = "concat (map Student_saveToFile (students st @ [?r]))"
  assume h: "no_comma_fields ?r \<and> no_newline_fields ?r \<and>
    (\<forall>s \<in> set (students st). no_newline_fields s)"
  then have "\<forall>s \<in> set (students st @ [?r]). no_newline_fields s" by simp
  then have "getlines (?f @ []) = map Student_line (students st @ [?r]) @ getlines []"
    by (rule getlines_file)
  then have g: "getlines (concat (map Student_saveToFile (students st)) @ Student_saveToFile ?r) =
      map Student_line (students st) @ [Student_line ?r]"
    by (simp add: getlines_Nil)
  obtain ys where ys: "load_loop indet (map Student_line (students st)) [] = Inr ([] @ ys)"
    and len: "length ys = length (students st)"
    using load_loop_lines_return by blast
  from h have "fromString (indet (length ys)) (Student_line ?r) = Inr ?r"
    by (simp add: fromString_line)
  then have "load_loop indet (map Student_line (students st) @ [Student_line ?r]) [] =
      Inr (ys @ [?r])"
    using ys by (simp add: load_loop_append Student_line_not_Nil)
  then have "StudentSystem_new indet (students_txt (fst (addStudent st roll nm dept em ph))) =
              Inr \<lparr>students = ys @ [?r],
                   students_txt = students_txt (fst (addStudent st roll nm dept em ph))\<rparr>"
    by (simp add: StudentSystem_new_def loadFromFile_def addStudent_def saveToFile_def g)
  with len show "\<exists>xs. StudentSystem_new indet (students_txt (fst (addStudent st roll nm dept em ph))) =
              Inr \<lparr>students = xs @ [Student_make roll nm dept em ph],
                   students_txt = students_txt (fst (addStudent st roll nm dept em ph))\<rparr> \<and>
            length xs = length (students st)"
    by blast
qed

theorem addStudent_find_reload_witness:
  "snd (searchStudent (fst (addStudent store2 3 ''Carol'' ''ME'' ''c@x.com'' ''557'')) 3) =
     [Display (Student_make 3 ''Carol'' ''ME'' ''c@x.com'' ''557'')] \<and>
   snd (searchStudent (fst (addStudent store2 1 ''Alma'' ''ME'' ''m@x.com'' ''557'')) 1) =
     [Display alice] \<and>
   (\<exists>xs. StudentSystem_new (\<lambda>k. 0)
           (students_txt (fst (addStudent store2 3 ''Carol'' ''ME'' ''c@x.com'' ''557''))) =
          Inr \<lparr>students = xs @ [Student_make 3 ''Carol'' ''ME'' ''c@x.com'' ''557''],
               students_txt =
                 students_txt (fst (addStudent store2 3 ''Carol'' ''ME'' ''c@x.com'' ''557''))\<rparr> \<and>
         length xs = length (students store2))"
proof -
  let ?r = "Student_make 3 ''Carol'' ''ME'' ''c@x.com'' ''557''"
  have a: "\<forall>s \<in> set (students store2). rollNo s \<noteq> 3" by code_simp
  have c: "no_comma_fields ?r" by code_simp
  have n: "no_newline_fields ?r" by code_simp
  have m: "\<forall>s \<in> set (students store2). no_newline_fields s" by code_simp
  have f: "first_match 1 (students store2) 0" by code_simp
  have h: "students store2 ! 0 = alice" by (simp add: store2_def)
  from f addStudent_find_reload [of store2 1 "''Alma''" "''ME''" "''m@x.com''" "''557''" "\<lambda>k. 0"]
  have "snd (searchStudent (fst (addStudent store2 1 ''Alma'' ''ME'' ''m@x.com'' ''557'')) 1) =
     [Display (students store2 ! 0)]" by blast
  then have old: "snd (searchStudent (fst (addStudent store2 1 ''Alma'' ''ME'' ''m@x.com'' ''557'')) 1) =
     [Display alice]" by (simp only: h)
  from a c n m old
    addStudent_find_reload [of store2 3 "''Carol''" "''ME''" "''c@x.com''" "''557''" "\<lambda>k. 0"]
  show ?thesis by blast
qed

text \<open>
  The claim as the specification words it fails in two ways. With a record of roll
  number 1 in the vector, the search after adding another record of roll number 1 shows
  the old one. And a name with a comma makes a line of six parts, which is read back as
  the record of \<open>Student()\<close>, not as the record added.
\<close>

theorem addStudent_find_reload_counterexample:
  "snd (searchStudent (fst (addStudent \<lparr>students = [alice], students_txt = None\<rparr>
         1 ''Alma'' ''ME'' ''m@x.com'' ''557'')) 1) = [Display alice] \<and>
   alice \<noteq> Student_make 1 ''Alma'' ''ME'' ''m@x.com'' ''557'' \<and>
   students_txt (fst (addStudent \<lparr>students = [], students_txt = None\<rparr>
         3 ''Doe, John'' ''CS'' ''j@x.com'' ''558'')) = Some (''3,Doe, John,CS,j@x.com,558'' @ [newline]) \<and>
   StudentSystem_new (\<lambda>k. 0) (Some (''3,Doe, John,CS,j@x.com,558'' @ [newline])) =
     Inr \<lparr>students = [\<lparr>rollNo = 0, name = [], department = [], email = [], phone = []\<rparr>],
          students_txt = Some (''3,Doe, John,CS,j@x.com,558'' @ [newline])\<rparr>"
  by code_simp

end
